theory Spec2Isabelle
  imports Complex_Main
begin

section \<open>welshtools: the transcription pipeline\<close>

text \<open>
  A shallow embedding of \<^verbatim>\<open>welshtools/shared.py\<close> and
  \<^verbatim>\<open>welshtools/transcription.py\<close>.

  A Python \<^verbatim>\<open>str\<close> is a sequence of Unicode code points, so it is modelled as a
  list of natural numbers; \<open>u\<close> turns an ASCII literal into such a list.
\<close>

type_synonym ustring = "nat list"

definition u :: "string \<Rightarrow> ustring" where
  "u s = map of_char s"

text \<open>The exceptions the modelled code can raise.\<close>

datatype error =
    ValueError
  | IndexError
  | ZeroDivisionError
  | KeyError ustring
  | TypeError ustring error   \<comment> \<open>message, and the exception being handled when it was raised\<close>
  | IOError ustring
  | FileNotFoundError ustring
  | OSError
  | UnicodeEncodeError
  | UnicodeDecodeError
  | Exception ustring

subsection \<open>shared.chunks\<close>

text \<open>
  \<^verbatim>\<open>
  def chunks(lst, chunk_size):
      for i in range(0, len(lst), chunk_size):
          yield lst[i:i+chunk_size]
  \<close>
  \<open>chunks_from i p lst\<close> is the loop from index \<open>i\<close> on, for a positive step
  \<open>p\<close>. \<open>range\<close> raises \<open>ValueError\<close> for a zero step and is empty for a negative
  one (its stop, \<open>len(lst)\<close>, is never below its start, 0).
\<close>

function chunks_from :: "nat \<Rightarrow> nat \<Rightarrow> 'a list \<Rightarrow> 'a list list" where
  "chunks_from i p lst =
     (if p = 0 \<or> length lst \<le> i then []
      else take p (drop i lst) # chunks_from (i + p) p lst)"
  by pat_completeness auto
termination
  by (relation "measure (\<lambda>(i, p, lst). length lst - i)") auto

declare chunks_from.simps [simp del]

definition chunks :: "'a list \<Rightarrow> int \<Rightarrow> error + 'a list list" where
  "chunks lst chunk_size =
     (if chunk_size = 0 then Inl ValueError
      else if chunk_size < 0 then Inr []
      else Inr (chunks_from 0 (nat chunk_size) lst))"

subsection \<open>The dispatch loop of transcribe\_file\<close>

text \<open>
  \<^verbatim>\<open>
  pool = multiprocessing.Pool(processes=nprocs)
  for chunk in shared.chunks(fin_lines, nprocs):
      count_lines += len(chunk)
      fout_lines = pool.map(transcribe_line, chunk)
      for line in fout_lines:
          fout.write(line)
  \<close>
  The workers are separate processes: the parent sees of each call only the value it
  returns or the exception it raises, so the mapped function is a parameter
  \<open>f :: ustring \<Rightarrow> error + ustring\<close>. \<open>pool.map\<close> returns the results in the order
  of its arguments, or raises when a call has raised.
\<close>

fun pool_map :: "('a \<Rightarrow> error + 'b) \<Rightarrow> 'a list \<Rightarrow> error + 'b list" where
  "pool_map f [] = Inr []"
| "pool_map f (x # xs) =
     (case f x of
        Inl e \<Rightarrow> Inl e
      | Inr y \<Rightarrow> (case pool_map f xs of Inl e \<Rightarrow> Inl e | Inr ys \<Rightarrow> Inr (y # ys)))"

text \<open>
  The loop over the chunks: \<open>fout\<close> is what has been written to the destination so
  far, the second component the exception that ended the loop, if any.
\<close>

fun write_chunks ::
  "(ustring \<Rightarrow> error + ustring) \<Rightarrow> ustring list \<Rightarrow> ustring list list
     \<Rightarrow> ustring list \<times> error option" where
  "write_chunks f fout [] = (fout, None)"
| "write_chunks f fout (chunk # rest) =
     (case pool_map f chunk of
        Inl e \<Rightarrow> (fout, Some e)
      | Inr fout_lines \<Rightarrow> write_chunks f (fout @ fout_lines) rest)"

text \<open>
  \<open>multiprocessing.Pool\<close> raises \<open>ValueError\<close> when asked for fewer than one
  process, before any chunk is made.
\<close>

definition dispatch ::
  "(ustring \<Rightarrow> error + ustring) \<Rightarrow> ustring list \<Rightarrow> int \<Rightarrow> ustring list \<times> error option" where
  "dispatch f fin_lines nprocs =
     (if nprocs < 1 then ([], Some ValueError)
      else case chunks fin_lines nprocs of
             Inl e \<Rightarrow> ([], Some e)
           | Inr cs \<Rightarrow> write_chunks f [] cs)"

subsection \<open>Python string primitives\<close>

text \<open>
  The code points for which \<^verbatim>\<open>str.isspace\<close> holds: the separators of
  \<^verbatim>\<open>str.split()\<close> and what \<^verbatim>\<open>str.strip()\<close> removes.
\<close>

definition isspace :: "nat \<Rightarrow> bool" where
  "isspace c \<longleftrightarrow>
     (9 \<le> c \<and> c \<le> 13) \<or> (28 \<le> c \<and> c \<le> 32) \<or> c = 133 \<or> c = 160 \<or> c = 5760
     \<or> (8192 \<le> c \<and> c \<le> 8202) \<or> c = 8232 \<or> c = 8233 \<or> c = 8239 \<or> c = 8287
     \<or> c = 12288"

text \<open>\<^verbatim>\<open>s.strip()\<close>\<close>

definition str_strip :: "ustring \<Rightarrow> ustring" where
  "str_strip s = rev (dropWhile isspace (rev (dropWhile isspace s)))"

text \<open>\<^verbatim>\<open>s.split()\<close>: the maximal runs of non-space code points, in order.\<close>

fun split_acc :: "ustring \<Rightarrow> ustring \<Rightarrow> ustring list" where
  "split_acc cur [] = (if cur = [] then [] else [cur])"
| "split_acc cur (c # cs) =
     (if isspace c then (if cur = [] then split_acc [] cs else cur # split_acc [] cs)
      else split_acc (cur @ [c]) cs)"

definition str_split :: "ustring \<Rightarrow> ustring list" where
  "str_split s = split_acc [] s"

text \<open>\<^verbatim>\<open>s.split(sep)\<close> for a separator of one code point: never an empty list.\<close>

fun split_on_acc :: "nat \<Rightarrow> ustring \<Rightarrow> ustring \<Rightarrow> ustring list" where
  "split_on_acc sep cur [] = [cur]"
| "split_on_acc sep cur (c # cs) =
     (if c = sep then cur # split_on_acc sep [] cs else split_on_acc sep (cur @ [c]) cs)"

definition str_split_on :: "nat \<Rightarrow> ustring \<Rightarrow> ustring list" where
  "str_split_on sep s = split_on_acc sep [] s"

text \<open>
  \<^verbatim>\<open>s.replace(old, new)\<close>: the occurrences of \<open>old\<close> are found from the left and
  do not overlap; an empty \<open>old\<close> matches before every code point and at the end.
\<close>

function str_replace :: "ustring \<Rightarrow> ustring \<Rightarrow> ustring \<Rightarrow> ustring" where
  "str_replace old new [] = (if old = [] then new else [])"
| "str_replace old new (c # cs) =
     (if old = [] then new @ c # str_replace old new cs
      else if take (length old) (c # cs) = old
           then new @ str_replace old new (drop (length old) (c # cs))
      else c # str_replace old new cs)"
  by pat_completeness auto
termination
  by (relation "measure (\<lambda>(old, new, s). length s)") auto

declare str_replace.simps [simp del]

subsection \<open>festival\_escape\<close>

text \<open>
  \<^verbatim>\<open>
  def festival_escape(string):
      escape_mapping = [
          ['\\', '\\\\'], #Must be first to avoid double escaping other escapes
          ['"',  '\\"']
      ]
      for item in escape_mapping:
          string = string.replace(item[0], item[1])
      return string
  \<close>
  The backslash is code point 92, the double quote 34.
\<close>

definition escape_mapping :: "(ustring \<times> ustring) list" where
  "escape_mapping = [([92], [92, 92]), ([34], [92, 34])]"

definition festival_escape :: "ustring \<Rightarrow> ustring" where
  "festival_escape string =
     fold (\<lambda>item s. str_replace (fst item) (snd item) s) escape_mapping string"

text \<open>
  The specification's reading of the escaping, one code point at a time, and the
  reversal it speaks of: a backslash followed by a backslash or a quote stands for that
  second code point.
\<close>

definition escape_char :: "nat \<Rightarrow> ustring" where
  "escape_char c = (if c = 92 then [92, 92] else if c = 34 then [92, 34] else [c])"

fun festival_unescape :: "ustring \<Rightarrow> ustring" where
  "festival_unescape (c # d # rest) =
     (if c = 92 \<and> (d = 92 \<or> d = 34) then d # festival_unescape rest
      else c # festival_unescape (d # rest))"
| "festival_unescape s = s"

text \<open>
  A string is well escaped when each backslash in it opens a pair, backslash-backslash
  or backslash-quote, and no quote stands outside such a pair.
\<close>

fun well_escaped :: "ustring \<Rightarrow> bool" where
  "well_escaped [] = True"
| "well_escaped [c] = (c \<noteq> 92 \<and> c \<noteq> 34)"
| "well_escaped (c # d # rest) =
     (if c = 92 then (d = 92 \<or> d = 34) \<and> well_escaped rest
      else c \<noteq> 34 \<and> well_escaped (d # rest))"

subsection \<open>map\_utf8\_to\_festival\<close>

text \<open>
  \<^verbatim>\<open>s.encode('ASCII', errors)\<close> and \<^verbatim>\<open>str(bytes, encoding="ASCII")\<close>. A strict
  encoding raises on the first code point above 127; \<^verbatim>\<open>'ignore'\<close> leaves such code
  points out.
\<close>

datatype errors_mode = Strict | Ignore

definition encode_ascii :: "errors_mode \<Rightarrow> ustring \<Rightarrow> error + nat list" where
  "encode_ascii errors s =
     (case errors of
        Ignore \<Rightarrow> Inr (filter (\<lambda>c. c < 128) s)
      | Strict \<Rightarrow> if list_all (\<lambda>c. c < 128) s then Inr s else Inl UnicodeEncodeError)"

definition decode_ascii :: "nat list \<Rightarrow> error + ustring" where
  "decode_ascii bs = (if list_all (\<lambda>b. b < 128) bs then Inr bs else Inl UnicodeDecodeError)"

text \<open>
  \<^verbatim>\<open>
  def map_utf8_to_festival(string):
      string = unicodedata.normalize('NFKD', string)
      utf8_to_festival_mapping = {
          chr(770) : "+",  chr(776) : ":",  chr(769) : '/',  chr(768) : '\\',
      }
      for k, v in utf8_to_festival_mapping.items():
          string = string.replace(k, v)
      return str(string.encode('ASCII', 'ignore'), encoding="ASCII")
  \<close>
  The normalisation is a function of the Unicode Character Database, which is not part
  of the program: it is the parameter \<open>nfkd\<close>. The dictionary is listed in its
  insertion order.
\<close>

definition utf8_to_festival_mapping :: "(ustring \<times> ustring) list" where
  "utf8_to_festival_mapping =
     [([770], u ''+''), ([776], u '':''), ([769], u ''/''), ([768], [92])]"

definition map_utf8_to_festival :: "(ustring \<Rightarrow> ustring) \<Rightarrow> ustring \<Rightarrow> error + ustring" where
  "map_utf8_to_festival nfkd string =
     (let string = nfkd string;
          string = fold (\<lambda>(k, v) s. str_replace k v s) utf8_to_festival_mapping string
      in case encode_ascii Ignore string of
           Inl e \<Rightarrow> Inl e
         | Inr bs \<Rightarrow> decode_ascii bs)"

text \<open>
  The specification's table of markers: circumflex (U+0302) to \<open>+\<close>, diaeresis
  (U+0308) to \<open>:\<close>, acute (U+0301) to \<open>/\<close>, grave (U+0300) to the backslash.
\<close>

definition marker :: "nat \<Rightarrow> nat" where
  "marker c =
     (if c = 770 then 43 else if c = 776 then 58 else if c = 769 then 47
      else if c = 768 then 92 else c)"

text \<open>
  A fragment of the compatibility decomposition, enough to run examples: some accented
  Latin letters of Welsh split into base letter and combining mark, every other code
  point (all of ASCII among them) left alone.
\<close>

definition decomposition :: "nat \<Rightarrow> ustring" where
  "decomposition c =
     (if c = 226 then [97, 770] else if c = 234 then [101, 770]
      else if c = 238 then [105, 770] else if c = 244 then [111, 770]
      else if c = 251 then [117, 770] else if c = 373 then [119, 770]
      else if c = 375 then [121, 770] else if c = 233 then [101, 769]
      else if c = 224 then [97, 768] else if c = 239 then [105, 776]
      else [c])"

definition nfkd_sample :: "ustring \<Rightarrow> ustring" where
  "nfkd_sample s = concat (map decomposition s)"

subsection \<open>map\_festival\_to\_ipa\<close>

text \<open>
  The dictionaries of \<^verbatim>\<open>map_festival_to_ipa\<close>, in the order of the source. The
  values outside ASCII are given by their code points (720 is the length mark U+02D0,
  616 the barred i U+0268, 601 the schwa U+0259, and so on).
\<close>

definition festival_to_ipa_mapping :: "(ustring \<times> ustring) list" where
  "festival_to_ipa_mapping =
     [(u ''i'', u ''i''), (u ''e'', u ''e''), (u ''a'', u ''a''), (u ''o'', u ''o''),
      (u ''u'', u ''u''), (u ''y'', [616]), (u ''@'', [601]), (u ''ii'', [105, 720]),
      (u ''ee'', [101, 720]), (u ''aa'', [97, 720]), (u ''oo'', [111, 720, 720]), (u ''uu'', [117, 720]),
      (u ''yy'', [616, 720]), (u ''@@'', [601, 720]), (u ''oa'', u ''oa''), (u ''oi'', u ''oi''),
      (u ''ou'', u ''ou''), (u ''oy'', [111, 616]), (u ''ai'', u ''ai''), (u ''au'', u ''au''),
      (u ''ay'', [97, 616]), (u ''aay'', [97, 720, 616]), (u ''uy'', [117, 616]), (u ''iu'', u ''iu''),
      (u ''ei'', u ''ei''), (u ''eu'', u ''eu''), (u ''ey'', [101, 616]), (u ''ye'', [616, 101]),
      (u ''p'', u ''p''), (u ''t'', u ''t''), (u ''k'', u ''k''), (u ''b'', u ''b''),
      (u ''d'', u ''d''), (u ''g'', u ''g''), (u ''f'', u ''f''), (u ''th'', [952]),
      (u ''h'', u ''h''), (u ''x'', [967]), (u ''v'', u ''v''), (u ''dh'', [240]),
      (u ''s'', u ''s''), (u ''z'', u ''z''), (u ''sh'', [643]), (u ''zh'', [658]),
      (u ''ch'', [116, 865, 643]), (u ''jh'', [100, 865, 658]), (u ''lh'', [620]), (u ''rh'', [114, 805, 688]),
      (u ''l'', u ''l''), (u ''r'', u ''r''), (u ''w'', u ''w''), (u ''j'', u ''j''),
      (u ''m'', u ''m''), (u ''n'', u ''n''), (u ''ng'', [331]), (u ''mh'', [109, 805]),
      (u ''nh'', [110, 805]), (u ''ngh'', [331, 778]), (u ''lw'', [108, 695]), (u ''nw'', [110, 695]),
      (u ''rw'', [114, 695])]"

definition festival_to_ipa_fixes :: "(ustring \<times> ustring) list" where
  "festival_to_ipa_fixes =
     [(u ''hh'', u ''h''), (u ''yu'', [616, 117]), (u ''sil'', u '' ''), (u ''#'', [])]"

definition festival_tense_lax_augmentation :: "(ustring \<times> ustring) list" where
  "festival_tense_lax_augmentation =
     [(u ''i'', [618]), (u ''e'', [603]), (u ''a'', u ''a''), (u ''aa'', [593, 720]),
      (u ''o'', [596]), (u ''u'', [650])]"

definition festival_labialisation_augmentation :: "(ustring \<times> ustring) list" where
  "festival_labialisation_augmentation =
     [(u ''lw'', u ''lw''), (u ''nw'', u ''nw''), (u ''rw'', u ''rw'')]"

definition festival_long_schwa_augmentation :: "(ustring \<times> ustring) list" where
  "festival_long_schwa_augmentation =
     [(u ''@@'', [601])]"

text \<open>
  \<^verbatim>\<open>d.update(e)\<close> on dictionaries seen as maps: the entries of \<open>e\<close> win.

  The table in use: the fixes are always merged, the tense/lax and the labialisation
  overlays under their flags. The long schwa overlay is built when
  \<^verbatim>\<open>encode_long_schwa is False\<close>, and that is all the source does with it:
  \<^verbatim>\<open>
  if encode_long_schwa is False:
      festival_long_schwa_augmentation = {
          '@@'  :  <schwa>,
      }
  #Now transcribe the string
  \<close>
\<close>

definition ipa_table :: "bool \<Rightarrow> bool \<Rightarrow> bool \<Rightarrow> (ustring \<rightharpoonup> ustring)" where
  "ipa_table encode_tense_lax encode_labialisation encode_long_schwa =
     (let m = map_of festival_to_ipa_mapping ++ map_of festival_to_ipa_fixes;
          m = (if encode_tense_lax then m ++ map_of festival_tense_lax_augmentation else m);
          m = (if \<not> encode_labialisation
               then m ++ map_of festival_labialisation_augmentation else m);
          unused = (if \<not> encode_long_schwa
               then Some festival_long_schwa_augmentation else None)
      in m)"

text \<open>
  \<^verbatim>\<open>
  transcription = ""
  for item in string.split():
      try:
          transcription += festival_to_ipa_mapping[item.strip()]
      except KeyError as ex:
          ex.args[0] = ("The symbol `%s' was encountered, but it is not "
                       "specified in the Festival to IPA mapping.") % item
          raise
  return transcription.strip()
  \<close>
  \<^verbatim>\<open>ex.args\<close> is a tuple, and assigning to an item of a tuple raises
  \<^verbatim>\<open>TypeError\<close>: that exception leaves the handler, with the \<^verbatim>\<open>KeyError\<close> as
  its context, and the \<^verbatim>\<open>raise\<close> after it is not reached.
\<close>

definition tuple_item_assignment :: ustring where
  "tuple_item_assignment =
     [39] @ u ''tuple'' @ [39] @ u '' object does not support item assignment''"

fun transcribe_items ::
  "(ustring \<rightharpoonup> ustring) \<Rightarrow> ustring \<Rightarrow> ustring list \<Rightarrow> error + ustring" where
  "transcribe_items m transcription [] = Inr transcription"
| "transcribe_items m transcription (item # items) =
     (case m (str_strip item) of
        Some v \<Rightarrow> transcribe_items m (transcription @ v) items
      | None \<Rightarrow> Inl (TypeError tuple_item_assignment (KeyError (str_strip item))))"

definition map_festival_to_ipa :: "ustring \<Rightarrow> bool \<Rightarrow> bool \<Rightarrow> bool \<Rightarrow> error + ustring" where
  "map_festival_to_ipa string encode_tense_lax encode_labialisation encode_long_schwa =
     (case transcribe_items
             (ipa_table encode_tense_lax encode_labialisation encode_long_schwa)
             [] (str_split string) of
        Inl e \<Rightarrow> Inl e
      | Inr transcription \<Rightarrow> Inr (str_strip transcription))"

subsection \<open>Decimal numerals\<close>

text \<open>
  \<^verbatim>\<open>str(i)\<close> of an integer, which is also what \<^verbatim>\<open>%s\<close> and \<^verbatim>\<open>%d\<close> write for
  it: the decimal digits (48 is the digit zero), after a minus sign (45) when the
  number is negative.
\<close>

fun str_nat :: "nat \<Rightarrow> ustring" where
  "str_nat n = (if n < 10 then [48 + n] else str_nat (n div 10) @ [48 + n mod 10])"

declare str_nat.simps [simp del]

definition str_int :: "int \<Rightarrow> ustring" where
  "str_int i = (if i < 0 then 45 # str_nat (nat (- i)) else str_nat (nat i))"

subsection \<open>The arithmetic of shared.estimate\_remaining\_time\<close>



subsection \<open>The surroundings of the program\<close>

text \<open>
  What the program does not decide is collected in an environment: the Unicode
  normalisation, the temporary directory and the path separator, which paths
  \<^verbatim>\<open>open(path, "w+")\<close> can create, whether the \<^verbatim>\<open>festival\<close> executable
  is found, and what a Festival process does with the script it reads.

  A run of Festival is described by what the program can observe of it: after how many
  of the program's 0.1 second sleeps \<^verbatim>\<open>proc.poll()\<close> first reports that it has
  exited (never, for \<open>None\<close>), and the lines the output file holds from then on.
\<close>

record festival_run =
  exits_after :: "nat option"
  segs :: "ustring list"

record env =
  normalize_nfkd :: "ustring \<Rightarrow> ustring"
  gettempdir :: ustring
  path_sep :: ustring
  creatable :: "ustring \<Rightarrow> bool"
  festival_found :: bool
  festival :: "ustring \<Rightarrow> festival_run"

text \<open>
  The state the program changes: the files (a path holds the lines of its file), the
  random strings that \<^verbatim>\<open>random_string\<close> will return, the lines printed, and
  counters of the calls of \<^verbatim>\<open>proc.poll\<close>, \<^verbatim>\<open>time.sleep(0.1)\<close>,
  \<^verbatim>\<open>proc.kill\<close> and \<^verbatim>\<open>os.unlink\<close>. The only clock is the number of sleeps.
\<close>

record world =
  files :: "ustring \<rightharpoonup> ustring list"
  random_strings :: "ustring list"
  stdout :: "ustring list"
  polls :: nat
  sleeps :: nat
  kills :: nat
  unlinks :: nat

subsection \<open>TempFile\<close>

record TempFile =
  destroyed :: bool
  prefix :: ustring
  suffix :: ustring
  tempdir :: ustring
  randomstring :: ustring
  filename :: ustring
  filepath :: ustring

text \<open>
  \<^verbatim>\<open>
  def __init__(self, prefix='', suffix=''):
      self.destroyed = False
      self.prefix = prefix
      self.suffix = suffix
      self.tempdir = tempfile.gettempdir()
      while True:
          self.randomstring = self.random_string()
          self.filename = self.prefix + self.randomstring + self.suffix
          self.filepath = self.tempdir + os.path.sep + self.filename
          if not os.path.isfile(self.filepath):
              try:
                  fh = open(self.filepath, "w+")
                  fh.close()
              except IOError:
                  continue
              break
  \<close>
  The loop may not end; it is run on the supply of random strings, and \<open>None\<close>
  stands for a loop that has used up the supply without leaving.
\<close>

fun TempFile_loop ::
  "env \<Rightarrow> ustring \<Rightarrow> ustring \<Rightarrow> ustring list \<Rightarrow> world \<Rightarrow> (TempFile \<times> world) option" where
  "TempFile_loop env pre suf [] w = None"
| "TempFile_loop env pre suf (r # rs) w =
     (let name = pre @ r @ suf;
          path = gettempdir env @ path_sep env @ name
      in if files w path = None \<and> creatable env path
         then Some (\<lparr>destroyed = False, prefix = pre, suffix = suf,
                      tempdir = gettempdir env, randomstring = r,
                      filename = name, filepath = path\<rparr>,
                    w\<lparr>files := (files w)(path \<mapsto> []), random_strings := rs\<rparr>)
         else TempFile_loop env pre suf rs w)"

definition TempFile_init ::
  "env \<Rightarrow> ustring \<Rightarrow> ustring \<Rightarrow> world \<Rightarrow> (TempFile \<times> world) option" where
  "TempFile_init env pre suf w = TempFile_loop env pre suf (random_strings w) w"

definition get_path :: "TempFile \<Rightarrow> ustring" where
  "get_path self = filepath self"

text \<open>
  \<^verbatim>\<open>os.unlink(path)\<close> raises \<^verbatim>\<open>FileNotFoundError\<close> when there is no such file.
  \<^verbatim>\<open>
  def destroy(self):
      if not self.destroyed:
          os.unlink(self.filepath)
          self.destroyed = True
  \<close>
\<close>

definition os_unlink :: "ustring \<Rightarrow> world \<Rightarrow> error + world" where
  "os_unlink path w =
     (if files w path = None then Inl (FileNotFoundError path)
      else Inr (w\<lparr>files := (files w)(path := None), unlinks := unlinks w + 1\<rparr>))"

definition destroy :: "TempFile \<Rightarrow> world \<Rightarrow> (error + unit) \<times> TempFile \<times> world" where
  "destroy self w =
     (if \<not> destroyed self
      then (case os_unlink (filepath self) w of
              Inl e \<Rightarrow> (Inl e, self, w)
            | Inr w' \<Rightarrow> (Inr (), self\<lparr>destroyed := True\<rparr>, w'))
      else (Inr (), self, w))"

text \<open>\<open>n\<close> calls of \<open>destroy\<close> in a row, up to the first that raises.\<close>

fun destroy_times ::
  "nat \<Rightarrow> TempFile \<Rightarrow> world \<Rightarrow> (error + unit) \<times> TempFile \<times> world" where
  "destroy_times 0 self w = (Inr (), self, w)"
| "destroy_times (Suc n) self w =
     (case destroy self w of
        (Inl e, self', w') \<Rightarrow> (Inl e, self', w')
      | (Inr x, self', w') \<Rightarrow> destroy_times n self' w')"

subsection \<open>transcribe\_string\<close>

text \<open>
  The script for Festival,
  \<^verbatim>\<open>
  command = "(voice_cb_cy_llg_diphone)\n" \
            '(utt.save.segs (utt.synth (Utterance Text "{TEXT}")) "{PATH}")\n' \
            "(exit)\n\n"
  \<close>
  with \<^verbatim>\<open>{TEXT}\<close> and \<^verbatim>\<open>{PATH}\<close> filled in (34 is the double quote, 10 the
  line feed).
\<close>

definition command_format :: "ustring \<Rightarrow> ustring \<Rightarrow> ustring" where
  "command_format TEXT PATH =
     u ''(voice_cb_cy_llg_diphone)'' @ [10]
     @ u ''(utt.save.segs (utt.synth (Utterance Text '' @ [34] @ TEXT @ [34]
     @ u '')) '' @ [34] @ PATH @ [34] @ u '')'' @ [10]
     @ u ''(exit)'' @ [10, 10]"

text \<open>
  \<^verbatim>\<open>
  timeout_loops = int(timeout/0.1)
  for i in range(timeout_loops+1):
      status = proc.poll()
      if status != None: #Proc has finished
          break
      else:                    #Proc still going
          if i < timeout_loops:
              time.sleep(0.1) #Wait 0.1s and try again
          else:
              proc.kill() #Kill process, raise exception
              print("Festivl timed out after %ds" % (timeout_loops*0.1))
              raise Exception(("Festival subprocess timed out (Timeout: "
                               "%ss, Command: %s).") % (timeout, command))
  \<close>
  The timeout is a whole number of seconds, as in both callers (5 and 30). The float
  quotient of an integer by 0.1, cut to an integer, is ten times the integer, and
  \<^verbatim>\<open>timeout_loops*0.1\<close> printed with \<^verbatim>\<open>%d\<close> is the integer again.

  At poll number \<open>i\<close> the process has slept \<open>i\<close> times. When the poll reports the
  exit, the output file holds the lines of the run.
\<close>

definition timeout_loops_of :: "int \<Rightarrow> int" where
  "timeout_loops_of timeout = 10 * timeout"

definition timed_out_message :: "int \<Rightarrow> ustring \<Rightarrow> ustring" where
  "timed_out_message timeout command =
     u ''Festival subprocess timed out (Timeout: '' @ str_int timeout
     @ u ''s, Command: '' @ command @ u '').''"

definition has_exited :: "festival_run \<Rightarrow> nat \<Rightarrow> bool" where
  "has_exited run i = (case exits_after run of None \<Rightarrow> False | Some k \<Rightarrow> k \<le> i)"

fun poll_loop ::
  "festival_run \<Rightarrow> int \<Rightarrow> int \<Rightarrow> ustring \<Rightarrow> ustring \<Rightarrow> nat list \<Rightarrow> world
     \<Rightarrow> (error + unit) \<times> world" where
  "poll_loop run timeout timeout_loops command path [] w = (Inr (), w)"
| "poll_loop run timeout timeout_loops command path (i # is) w =
     (let w = w\<lparr>polls := polls w + 1\<rparr>
      in if has_exited run i
         then (Inr (), w\<lparr>files := (files w)(path \<mapsto> segs run)\<rparr>)
         else if int i < timeout_loops
         then poll_loop run timeout timeout_loops command path is
                (w\<lparr>sleeps := sleeps w + 1\<rparr>)
         else (Inl (Exception (timed_out_message timeout command)),
               w\<lparr>kills := kills w + 1,
                 stdout := stdout w
                   @ [u ''Festivl timed out after '' @ str_int (timeout_loops div 10)
                      @ u ''s'']\<rparr>))"

text \<open>
  The body of the \<^verbatim>\<open>with\<close> statement: the script is made and sent, the process
  polled, the output file read.
  \<^verbatim>\<open>
  string = festival_escape(string)
  path = festival_escape(tempf.get_path())
  command = command.format(TEXT=string, PATH=path)
  proc = subprocess.Popen(['festival', '--pipe'], stdin=subprocess.PIPE)
  proc.stdin.write(bytes(command, "utf8"))
  proc.stdin.flush()
  ...
  with open(tempf.get_path(), "r") as fh:
      output = []
      for line in fh:
          output.append(line)
  \<close>
\<close>

definition with_tempf ::
  "env \<Rightarrow> ustring \<Rightarrow> int \<Rightarrow> TempFile \<Rightarrow> world \<Rightarrow> (error + ustring list) \<times> world" where
  "with_tempf env string timeout tempf w =
     (let string = festival_escape string;
          path = festival_escape (get_path tempf);
          command = command_format string path
      in if \<not> festival_found env then (Inl OSError, w)
         else
           let timeout_loops = timeout_loops_of timeout;
               (r, w) = poll_loop (festival env command) timeout timeout_loops command
                          (get_path tempf) [0..<nat (timeout_loops + 1)] w
           in case r of
                Inl e \<Rightarrow> (Inl e, w)
              | Inr x \<Rightarrow>
                  (case files w (get_path tempf) of
                     None \<Rightarrow> (Inl (FileNotFoundError (get_path tempf)), w)
                   | Some output \<Rightarrow> (Inr output, w)))"

text \<open>
  \<^verbatim>\<open>
  transcription = ""
  for line in output:
      transcription += line.split()[-1] + " " #Strip all but the last field
  \<close>
  A line without a field has no last field: \<^verbatim>\<open>IndexError\<close>.
\<close>

fun last_fields :: "ustring \<Rightarrow> ustring list \<Rightarrow> error + ustring" where
  "last_fields transcription [] = Inr transcription"
| "last_fields transcription (line # output) =
     (case str_split line of
        [] \<Rightarrow> Inl IndexError
      | f # fs \<Rightarrow> last_fields (transcription @ last (f # fs) @ u '' '') output)"

text \<open>
  \<^verbatim>\<open>
  def transcribe_string(string, timeout=5):
      string = map_utf8_to_festival(string)
      with TempFile('festival-', '.segs') as tempf:
          ...
      transcription = ""
      ...
      transcription = map_festival_to_ipa(transcription, encode_labialisation=False)
      return transcription
  \<close>
  Leaving the \<^verbatim>\<open>with\<close> statement calls \<open>destroy\<close>, on the way of an exception as
  well; an exception of \<open>destroy\<close> itself takes the place of the one under way.
  The result is \<open>None\<close> when the constructor of \<open>TempFile\<close> does not return.
\<close>

definition transcribe_string ::
  "env \<Rightarrow> ustring \<Rightarrow> int \<Rightarrow> world \<Rightarrow> ((error + ustring) \<times> world) option" where
  "transcribe_string env string timeout w =
     (case map_utf8_to_festival (normalize_nfkd env) string of
        Inl e \<Rightarrow> Some (Inl e, w)
      | Inr string \<Rightarrow>
          (case TempFile_init env (u ''festival-'') (u ''.segs'') w of
             None \<Rightarrow> None
           | Some (tempf, w) \<Rightarrow>
               (case with_tempf env string timeout tempf w of
                  (r, w) \<Rightarrow>
                    (case destroy tempf w of
                       (Inl e, tempf, w) \<Rightarrow> Some (Inl e, w)
                     | (Inr x, tempf, w) \<Rightarrow>
                         (case r of
                            Inl e \<Rightarrow> Some (Inl e, w)
                          | Inr output \<Rightarrow>
                              (case last_fields [] output of
                                 Inl e \<Rightarrow> Some (Inl e, w)
                               | Inr transcription \<Rightarrow>
                                   Some (map_festival_to_ipa transcription False False True,
                                         w)))))))"

subsection \<open>transcribe\_line\<close>

text \<open>
  \<^verbatim>\<open>
  def transcribe_line(line, timeout=30):
      proc = multiprocessing.current_process()
      proc.daemon = False
      (word, count) = line.strip().split(',')
      transcription = transcribe_string(word, timeout)
      return "%s,%s,%s\r\n" % (transcription, count, word)
  \<close>
  Unpacking anything but two fields raises \<^verbatim>\<open>ValueError\<close>. The comma is code
  point 44, carriage return and line feed are 13 and 10.
\<close>

definition transcribe_line ::
  "env \<Rightarrow> ustring \<Rightarrow> int \<Rightarrow> world \<Rightarrow> ((error + ustring) \<times> world) option" where
  "transcribe_line env line timeout w =
     (case str_split_on 44 (str_strip line) of
        [word, count] \<Rightarrow>
          (case transcribe_string env word timeout w of
             None \<Rightarrow> None
           | Some (Inl e, w) \<Rightarrow> Some (Inl e, w)
           | Some (Inr transcription, w) \<Rightarrow>
               Some (Inr (transcription @ u '','' @ count @ u '','' @ word @ [13, 10]), w))
      | _ \<Rightarrow> Some (Inl ValueError, w))"

subsection \<open>Sample surroundings\<close>

text \<open>
  Concrete surroundings on which the definitions can be run: a temporary directory
  \<open>/tmp\<close> where every path can be created, two random strings in store, and a
  Festival that either answers after three sleeps with the segments of \<open>caffi\<close>, or
  never exits.
\<close>

definition caffi_run :: festival_run where
  "caffi_run = \<lparr>exits_after = Some 3,
     segs = [u ''0.0500 100 k'' @ [10], u ''0.1300 100 a'' @ [10],
             u ''0.2400 100 f'' @ [10], u ''0.3500 100 i'' @ [10]]\<rparr>"

definition stuck_run :: festival_run where
  "stuck_run = \<lparr>exits_after = None, segs = []\<rparr>"

definition sample_env :: "festival_run \<Rightarrow> env" where
  "sample_env run = \<lparr>normalize_nfkd = nfkd_sample, gettempdir = u ''/tmp'',
     path_sep = u ''/'', creatable = (\<lambda>path. True), festival_found = True,
     festival = (\<lambda>command. run)\<rparr>"

definition sample_world :: world where
  "sample_world = \<lparr>files = Map.empty, random_strings = [u ''AB12C'', u ''ZZ9Y8''],
     stdout = [], polls = 0, sleeps = 0, kills = 0, unlinks = 0\<rparr>"

definition sample_tempfile :: TempFile where
  "sample_tempfile = \<lparr>destroyed = False, prefix = u ''festival-'', suffix = u ''.segs'',
     tempdir = u ''/tmp'', randomstring = u ''AB12C'',
     filename = u ''festival-AB12C.segs'', filepath = u ''/tmp/festival-AB12C.segs''\<rparr>"

section \<open>Properties\<close>

subsection \<open>Chunking\<close>

lemma chunks_from_step:
  "0 < p \<Longrightarrow> i < length lst \<Longrightarrow>
   chunks_from i p lst = take p (drop i lst) # chunks_from (i + p) p lst"
  by (subst chunks_from.simps) simp

lemma chunks_from_done: "length lst \<le> i \<Longrightarrow> chunks_from i p lst = []"
  by (subst chunks_from.simps) simp

lemma concat_chunks_from: "0 < p \<Longrightarrow> concat (chunks_from i p lst) = drop i lst"
proof (induction i p lst rule: chunks_from.induct)
  case (1 i p lst)
  show ?case
  proof (cases "length lst \<le> i")
    case True
    then show ?thesis by (simp add: chunks_from_done)
  next
    case False
    then have "concat (chunks_from i p lst)
        = take p (drop i lst) @ concat (chunks_from (i + p) p lst)"
      using "1.prems" by (simp add: chunks_from_step)
    also have "\<dots> = take p (drop i lst) @ drop (i + p) lst"
      using "1.IH" "1.prems" False by simp
    also have "\<dots> = drop i lst"
      by (metis add.commute append_take_drop_id drop_drop)
    finally show ?thesis .
  qed
qed

lemma nth_chunks_from:
  "0 < p \<Longrightarrow> k < length (chunks_from i p lst) \<Longrightarrow>
   chunks_from i p lst ! k = take p (drop (i + k * p) lst)"
proof (induction i p lst arbitrary: k rule: chunks_from.induct)
  case (1 i p lst)
  have live: "i < length lst"
  proof (rule ccontr)
    assume "\<not> i < length lst"
    then have "chunks_from i p lst = []" by (simp add: chunks_from_done)
    with "1.prems" show False by simp
  qed
  then have step: "chunks_from i p lst = take p (drop i lst) # chunks_from (i + p) p lst"
    using "1.prems" by (simp add: chunks_from_step)
  show ?case
  proof (cases k)
    case 0
    then show ?thesis using step by simp
  next
    case (Suc k')
    then have "k' < length (chunks_from (i + p) p lst)"
      using "1.prems" step by simp
    then have "chunks_from (i + p) p lst ! k' = take p (drop (i + p + k' * p) lst)"
      using "1.IH" "1.prems" live by simp
    then show ?thesis using step Suc by (simp add: add.assoc)
  qed
qed

lemma chunks_from_lengths:
  "0 < p \<Longrightarrow> c \<in> set (chunks_from i p lst) \<Longrightarrow> 0 < length c \<and> length c \<le> p"
proof (induction i p lst rule: chunks_from.induct)
  case (1 i p lst)
  show ?case
  proof (cases "length lst \<le> i")
    case True
    with "1.prems" show ?thesis by (simp add: chunks_from_done)
  next
    case False
    then have "c = take p (drop i lst) \<or> c \<in> set (chunks_from (i + p) p lst)"
      using "1.prems" by (simp add: chunks_from_step)
    then show ?thesis
    proof
      assume "c = take p (drop i lst)"
      then show ?thesis using False "1.prems" by simp
    next
      assume "c \<in> set (chunks_from (i + p) p lst)"
      then show ?thesis using "1.IH" "1.prems" False by simp
    qed
  qed
qed

lemma chunks_from_butlast_full:
  "0 < p \<Longrightarrow> c \<in> set (butlast (chunks_from i p lst)) \<Longrightarrow> length c = p"
proof (induction i p lst rule: chunks_from.induct)
  case (1 i p lst)
  show ?case
  proof (cases "length lst \<le> i")
    case True
    with "1.prems" show ?thesis by (simp add: chunks_from_done)
  next
    case False
    note live = this
    have step: "chunks_from i p lst = take p (drop i lst) # chunks_from (i + p) p lst"
      using live "1.prems" by (simp add: chunks_from_step)
    show ?thesis
    proof (cases "length lst \<le> i + p")
      case True
      then have "chunks_from (i + p) p lst = []" by (simp add: chunks_from_done)
      with step "1.prems" show ?thesis by simp
    next
      case False
      then have ne: "chunks_from (i + p) p lst \<noteq> []"
        using "1.prems" by (simp add: chunks_from_step)
      then have "c = take p (drop i lst) \<or> c \<in> set (butlast (chunks_from (i + p) p lst))"
        using step "1.prems" by simp
      then show ?thesis
      proof
        assume "c = take p (drop i lst)"
        then show ?thesis using False by simp
      next
        assume "c \<in> set (butlast (chunks_from (i + p) p lst))"
        then show ?thesis using "1.IH" "1.prems" live by simp
      qed
    qed
  qed
qed

subsection \<open>Ordered dispatch\<close>

lemma pool_map_Inr:
  "pool_map f xs = Inr ys \<Longrightarrow> map f xs = map Inr ys"
proof (induction xs arbitrary: ys)
  case Nil
  then show ?case by simp
next
  case (Cons x xs)
  then show ?case by (auto split: sum.splits)
qed

lemma write_chunks_prefix:
  "write_chunks f fout cs = (out, r) \<Longrightarrow>
   \<exists>done. out = fout @ done \<and> map Inr done = map f (take (length done) (concat cs))
      \<and> (r = None \<longrightarrow> length done = length (concat cs))"
proof (induction cs arbitrary: fout)
  case Nil
  then show ?case by simp
next
  case (Cons chunk rest)
  show ?case
  proof (cases "pool_map f chunk")
    case (Inl e)
    with Cons.prems show ?thesis by auto
  next
    case (Inr ls)
    then have ls: "map f chunk = map Inr ls" by (rule pool_map_Inr)
    then have len: "length ls = length chunk" by (metis length_map)
    from Inr Cons.prems have "write_chunks f (fout @ ls) rest = (out, r)" by simp
    from Cons.IH [OF this] obtain d where d: "out = (fout @ ls) @ d"
      "map Inr d = map f (take (length d) (concat rest))"
      "r = None \<longrightarrow> length d = length (concat rest)" by blast
    have "map Inr (ls @ d) = map f (take (length (ls @ d)) (concat (chunk # rest)))"
      using ls d(2) len by simp
    moreover have "out = fout @ (ls @ d)" using d(1) by simp
    moreover have "r = None \<longrightarrow> length (ls @ d) = length (concat (chunk # rest))"
      using d(3) len by simp
    ultimately show ?thesis by blast
  qed
qed

lemma pool_map_all:
  "\<forall>x\<in>set xs. \<exists>y. f x = Inr y \<Longrightarrow> pool_map f xs = Inr (map (projr \<circ> f) xs)"
  by (induction xs) auto

lemma write_chunks_all:
  "\<forall>x\<in>set (concat cs). \<exists>y. f x = Inr y \<Longrightarrow>
   write_chunks f fout cs = (fout @ map (projr \<circ> f) (concat cs), None)"
proof (induction cs arbitrary: fout)
  case Nil
  then show ?case by simp
next
  case (Cons chunk rest)
  then have "pool_map f chunk = Inr (map (projr \<circ> f) chunk)"
    by (intro pool_map_all) simp
  moreover have "write_chunks f (fout @ map (projr \<circ> f) chunk) rest
      = ((fout @ map (projr \<circ> f) chunk) @ map (projr \<circ> f) (concat rest), None)"
    using Cons.prems by (intro Cons.IH) simp
  ultimately show ?case by simp
qed

text \<open>
  Claim C1. For a pool size \<open>p \<ge> 1\<close>, \<open>chunks\<close> returns consecutive slices of
  the input (the \<open>k\<close>-th is \<open>lst[k*p : k*p+p]\<close>), every one but the last of length
  exactly \<open>p\<close>, none empty or longer than \<open>p\<close>, and their concatenation is the
  input. The dispatch loop therefore writes, at position \<open>i\<close>, the result of the
  \<open>i\<close>-th input line: what has been written is always a prefix of the mapped input,
  all of it when no call raises.
\<close>

theorem chunks_partition_ordered:
  assumes "1 \<le> p"
  shows "\<exists>cs. chunks lst p = Inr cs
      \<and> concat cs = lst
      \<and> (\<forall>k<length cs. cs ! k = take (nat p) (drop (k * nat p) lst))
      \<and> (\<forall>c\<in>set (butlast cs). length c = nat p)
      \<and> (\<forall>c\<in>set cs. 0 < length c \<and> length c \<le> nat p)
      \<and> (\<forall>out r. dispatch f lst p = (out, r) \<longrightarrow>
            length out \<le> length lst
          \<and> (\<forall>i<length out. f (lst ! i) = Inr (out ! i))
          \<and> (r = None \<longrightarrow> length out = length lst))
      \<and> ((\<forall>x\<in>set lst. \<exists>y. f x = Inr y) \<longrightarrow>
            dispatch f lst p = (map (projr \<circ> f) lst, None))"
proof -
  define cs where "cs = chunks_from 0 (nat p) lst"
  have pos: "0 < nat p" using assms by simp
  have c: "chunks lst p = Inr cs" using assms by (simp add: chunks_def cs_def)
  have cat: "concat cs = lst" using concat_chunks_from [OF pos, of 0 lst] by (simp add: cs_def)
  have nth: "\<forall>k<length cs. cs ! k = take (nat p) (drop (k * nat p) lst)"
    using nth_chunks_from [OF pos, of _ 0 lst] by (simp add: cs_def)
  have full: "\<forall>c\<in>set (butlast cs). length c = nat p"
    using chunks_from_butlast_full [OF pos] by (auto simp: cs_def)
  have lens: "\<forall>c\<in>set cs. 0 < length c \<and> length c \<le> nat p"
    using chunks_from_lengths [OF pos] unfolding cs_def by blast
  have d: "dispatch f lst p = write_chunks f [] cs"
    using assms c by (simp add: dispatch_def)
  have ord: "\<forall>out r. dispatch f lst p = (out, r) \<longrightarrow>
            length out \<le> length lst
          \<and> (\<forall>i<length out. f (lst ! i) = Inr (out ! i))
          \<and> (r = None \<longrightarrow> length out = length lst)"
  proof (intro allI impI)
    fix out r
    assume "dispatch f lst p = (out, r)"
    then have "write_chunks f [] cs = (out, r)" using d by simp
    from write_chunks_prefix [OF this] obtain d where d: "out = [] @ d"
      "map Inr d = map f (take (length d) (concat cs))"
      "r = None \<longrightarrow> length d = length (concat cs)" by blast
    have m: "map Inr out = map f (take (length out) lst)"
      using d(1,2) cat by simp
    have fin: "r = None \<longrightarrow> length out = length lst"
      using d(1,3) cat by simp
    have "length out = length (take (length out) lst)"
      using m by (rule map_eq_imp_length_eq)
    then have le: "length out \<le> length lst" by simp
    have "\<forall>i<length out. f (lst ! i) = Inr (out ! i)"
    proof (intro allI impI)
      fix i assume i: "i < length out"
      then have "map Inr out ! i = map f (take (length out) lst) ! i" using m by simp
      then show "f (lst ! i) = Inr (out ! i)" using i le by simp
    qed
    with le fin show "length out \<le> length lst
          \<and> (\<forall>i<length out. f (lst ! i) = Inr (out ! i))
          \<and> (r = None \<longrightarrow> length out = length lst)" by blast
  qed
  have all: "(\<forall>x\<in>set lst. \<exists>y. f x = Inr y) \<longrightarrow>
            dispatch f lst p = (map (projr \<circ> f) lst, None)"
    using write_chunks_all [of cs f "[]"] cat d by simp
  from c cat nth full lens ord all show ?thesis by blast
qed


theorem chunks_partition_ordered_witness:
  "(1::int) \<le> 2
   \<and> chunks [u ''a,1'', u ''b,2'', u ''c,3''] 2 = Inr [[u ''a,1'', u ''b,2''], [u ''c,3'']]
   \<and> dispatch (\<lambda>l. Inr (l @ u ''!'')) [u ''a,1'', u ''b,2'', u ''c,3''] 2
       = ([u ''a,1!'', u ''b,2!'', u ''c,3!''], None)"
  using chunks_partition_ordered [of 2 "[u ''a,1'', u ''b,2'', u ''c,3'']" "\<lambda>l. Inr (l @ u ''!'')"]
  by (simp add: chunks_def dispatch_def u_def chunks_from.simps)

subsection \<open>Replacing one code point\<close>

lemma str_replace_single:
  "str_replace [a] new s = concat (map (\<lambda>c. if c = a then new else [c]) s)"
  by (induction s) (simp_all add: str_replace.simps)

lemma festival_escape_replace:
  "festival_escape s = str_replace [34] [92, 34] (str_replace [92] [92, 92] s)"
  by (simp add: festival_escape_def escape_mapping_def)

lemma festival_escape_concat: "festival_escape s = concat (map escape_char s)"
  unfolding festival_escape_replace str_replace_single
  by (induction s) (simp_all add: escape_char_def)

lemma unescape_cons_plain:
  "c \<noteq> 92 \<Longrightarrow> festival_unescape (c # s) = c # festival_unescape s"
  by (cases s) simp_all

lemma unescape_escape: "festival_unescape (concat (map escape_char s)) = s"
proof (induction s)
  case Nil
  then show ?case by simp
next
  case (Cons c s)
  consider "c = 92" | "c = 34" | "c \<noteq> 92" "c \<noteq> 34" by blast
  then show ?case
  proof cases
    case 1
    then show ?thesis using Cons.IH by (simp add: escape_char_def)
  next
    case 2
    then show ?thesis using Cons.IH by (simp add: escape_char_def)
  next
    case 3
    then show ?thesis using Cons.IH by (simp add: escape_char_def unescape_cons_plain)
  qed
qed

lemma well_escaped_cons_plain:
  "c \<noteq> 92 \<Longrightarrow> c \<noteq> 34 \<Longrightarrow> well_escaped (c # s) = well_escaped s"
  by (cases s) simp_all

lemma well_escaped_concat: "well_escaped (concat (map escape_char s))"
proof (induction s)
  case Nil
  then show ?case by simp
next
  case (Cons c s)
  consider "c = 92" | "c = 34" | "c \<noteq> 92" "c \<noteq> 34" by blast
  then show ?case
  proof cases
    case 1
    then show ?thesis using Cons.IH by (simp add: escape_char_def)
  next
    case 2
    then show ?thesis using Cons.IH by (simp add: escape_char_def)
  next
    case 3
    then show ?thesis using Cons.IH by (simp add: escape_char_def well_escaped_cons_plain)
  qed
qed

text \<open>
  Claim C3. \<open>festival_escape\<close> replaces the backslashes first and the double quotes
  second; the result doubles each backslash and puts a backslash before each quote of
  the input, the input is recovered from it by undoing the pairs (so the function is
  injective), and in the result every backslash belongs to an escape pair.
\<close>

theorem festival_escape_reversible:
  "festival_escape s = str_replace [34] [92, 34] (str_replace [92] [92, 92] s)
   \<and> festival_escape s = concat (map escape_char s)
   \<and> festival_unescape (festival_escape s) = s
   \<and> (festival_escape s = festival_escape t \<longrightarrow> s = t)
   \<and> well_escaped (festival_escape s)"
proof -
  have inj: "festival_escape s = festival_escape t \<longrightarrow> s = t"
  proof
    assume "festival_escape s = festival_escape t"
    then have "festival_unescape (concat (map escape_char s))
        = festival_unescape (concat (map escape_char t))"
      by (simp add: festival_escape_concat)
    then show "s = t" by (simp add: unescape_escape)
  qed
  have rt: "festival_unescape (festival_escape s) = s"
    by (simp add: festival_escape_concat unescape_escape)
  have well: "well_escaped (festival_escape s)"
    by (simp add: festival_escape_concat well_escaped_concat)
  from festival_escape_replace [of s] festival_escape_concat [of s] rt inj well
  show ?thesis by blast
qed

theorem festival_escape_reversible_witness:
  "festival_escape [97, 92, 34, 98] = [97, 92, 92, 92, 34, 98]
   \<and> festival_unescape [97, 92, 92, 92, 34, 98] = [97, 92, 34, 98]
   \<and> well_escaped [97, 92, 92, 92, 34, 98]"
  using festival_escape_reversible [of "[97, 92, 34, 98]" "[97, 92, 34, 98]"]
  by (simp add: festival_escape_def escape_mapping_def str_replace.simps escape_char_def)

subsection \<open>Normalising for the engine\<close>

lemma str_replace_char:
  "str_replace [a] [b] s = map (\<lambda>c. if c = a then b else c) s"
  by (induction s) (simp_all add: str_replace.simps)

lemma replace_markers:
  "fold (\<lambda>(k, v) s. str_replace k v s) utf8_to_festival_mapping s = map marker s"
  by (simp add: utf8_to_festival_mapping_def u_def str_replace_char marker_def)

lemma map_utf8_to_festival_eq:
  "map_utf8_to_festival nfkd w = Inr (filter (\<lambda>c. c < 128) (map marker (nfkd w)))"
  by (simp add: map_utf8_to_festival_def replace_markers encode_ascii_def decode_ascii_def
      list_all_iff)

lemma marker_ascii: "c < 128 \<Longrightarrow> marker c = c"
  by (simp add: marker_def)

lemma filter_marker_ascii:
  "list_all (\<lambda>c. c < 128) r \<Longrightarrow> filter (\<lambda>c. c < 128) (map marker r) = r"
  by (induction r) (simp_all add: marker_ascii)

lemma nfkd_sample_ascii: "list_all (\<lambda>c. c < 128) s \<Longrightarrow> nfkd_sample s = s"
  by (induction s) (simp_all add: nfkd_sample_def decomposition_def)

text \<open>
  Claim C4. Whatever the normalisation returns, \<open>map_utf8_to_festival\<close> succeeds: it
  puts the ASCII marker in the place of each of the four combining marks and leaves
  out every other code point above 127. When the normalisation splits a-circumflex
  (U+00E2) and e-acute (U+00E9) as Unicode does, the results for these two examples are
  \<open>a+\<close> and \<open>cafe/\<close>.
\<close>

theorem map_utf8_to_festival_markers:
  assumes "nfkd [226] = [97, 770]"
    and "nfkd [99, 97, 102, 233] = [99, 97, 102, 101, 769]"
  shows "map_utf8_to_festival nfkd w = Inr (filter (\<lambda>c. c < 128) (map marker (nfkd w)))
    \<and> map_utf8_to_festival nfkd [226] = Inr (u ''a+'')
    \<and> map_utf8_to_festival nfkd [99, 97, 102, 233] = Inr (u ''cafe/'')"
  using assms by (simp add: map_utf8_to_festival_eq marker_def u_def)

theorem map_utf8_to_festival_markers_witness:
  "nfkd_sample [226] = [97, 770]
   \<and> nfkd_sample [99, 97, 102, 233] = [99, 97, 102, 101, 769]
   \<and> map_utf8_to_festival nfkd_sample [119, 375, 114] = Inr (u ''wy+r'')
   \<and> map_utf8_to_festival nfkd_sample [226] = Inr (u ''a+'')
   \<and> map_utf8_to_festival nfkd_sample [99, 97, 102, 233] = Inr (u ''cafe/'')"
  using map_utf8_to_festival_markers [of nfkd_sample "[119, 375, 114]"]
  by (simp add: nfkd_sample_def decomposition_def marker_def u_def)

text \<open>
  Claim C10. The result of \<open>map_utf8_to_festival\<close> has only code points below 128,
  and the function maps its own result to itself, given that the normalisation leaves
  ASCII strings as they are (as NFKD does).
\<close>

theorem map_utf8_to_festival_idempotent:
  assumes "\<And>s. list_all (\<lambda>c. c < 128) s \<Longrightarrow> nfkd s = s"
  shows "\<exists>r. map_utf8_to_festival nfkd w = Inr r
    \<and> list_all (\<lambda>c. c < 128) r
    \<and> map_utf8_to_festival nfkd r = Inr r"
proof -
  define r where "r = filter (\<lambda>c. c < 128) (map marker (nfkd w))"
  have ascii: "list_all (\<lambda>c. c < 128) r" by (simp add: r_def list_all_iff)
  then have "nfkd r = r" by (rule assms)
  then have "map_utf8_to_festival nfkd r = Inr r"
    using ascii by (simp add: map_utf8_to_festival_eq filter_marker_ascii)
  moreover have "map_utf8_to_festival nfkd w = Inr r"
    by (simp add: map_utf8_to_festival_eq r_def)
  ultimately show ?thesis using ascii by blast
qed

theorem map_utf8_to_festival_idempotent_witness:
  "(\<exists>r. map_utf8_to_festival nfkd_sample [119, 375, 114, 8364] = Inr r
      \<and> list_all (\<lambda>c. c < 128) r
      \<and> map_utf8_to_festival nfkd_sample r = Inr r)
   \<and> map_utf8_to_festival nfkd_sample [119, 375, 114, 8364] = Inr (u ''wy+r'')
   \<and> map_utf8_to_festival nfkd_sample (u ''wy+r'') = Inr (u ''wy+r'')"
proof (intro conjI)
  show "\<exists>r. map_utf8_to_festival nfkd_sample [119, 375, 114, 8364] = Inr r
      \<and> list_all (\<lambda>c. c < 128) r
      \<and> map_utf8_to_festival nfkd_sample r = Inr r"
    by (rule map_utf8_to_festival_idempotent [OF nfkd_sample_ascii])
  show "map_utf8_to_festival nfkd_sample [119, 375, 114, 8364] = Inr (u ''wy+r'')"
    by (simp add: map_utf8_to_festival_eq nfkd_sample_def decomposition_def marker_def u_def)
  show "map_utf8_to_festival nfkd_sample (u ''wy+r'') = Inr (u ''wy+r'')"
    by (simp add: map_utf8_to_festival_eq nfkd_sample_def decomposition_def marker_def u_def)
qed

subsection \<open>Segments to IPA\<close>

lemma ipa_table_long_schwa:
  "ipa_table etl el False = ipa_table etl el True"
  by (simp add: ipa_table_def Let_def)

text \<open>
  Claim C2. On the segment string \<open>zz\<close>, and on \<open>k a zz i\<close>, the function returns
  no string: it raises. What it raises is the \<open>TypeError\<close> of the failed assignment
  to \<open>ex.args[0]\<close>, whose message does not name the label; the \<open>KeyError\<close> that
  carries \<open>zz\<close> is only its context.
\<close>

theorem map_festival_to_ipa_unknown_segment:
  "map_festival_to_ipa (u ''zz'') False True True
     = Inl (TypeError tuple_item_assignment (KeyError (u ''zz'')))
   \<and> map_festival_to_ipa (u ''k a zz i'') False True True
     = Inl (TypeError tuple_item_assignment (KeyError (u ''zz'')))"
  by (simp add: map_festival_to_ipa_def str_split_def str_strip_def isspace_def u_def
      ipa_table_def festival_to_ipa_mapping_def festival_to_ipa_fixes_def map_add_def)

text \<open>
  Claim C5. With \<open>encode_long_schwa\<close> false the segment \<open>@@\<close> is still mapped to
  the long schwa (U+0259 U+02D0): the flag changes nothing, for any input.
\<close>

theorem map_festival_to_ipa_long_schwa_kept:
  "map_festival_to_ipa (u ''@@'') False True False = Inr [601, 720]
   \<and> map_festival_to_ipa s etl el False = map_festival_to_ipa s etl el True"
proof
  show "map_festival_to_ipa (u ''@@'') False True False = Inr [601, 720]"
    by (simp add: map_festival_to_ipa_def str_split_def str_strip_def isspace_def u_def
      ipa_table_def festival_to_ipa_mapping_def festival_to_ipa_fixes_def map_add_def)
  show "map_festival_to_ipa s etl el False = map_festival_to_ipa s etl el True"
    by (simp add: map_festival_to_ipa_def ipa_table_long_schwa)
qed

subsection \<open>Remaining time\<close>




subsection \<open>Destroying a temporary file\<close>

lemma destroy_destroyed: "destroyed tf \<Longrightarrow> destroy tf w = (Inr (), tf, w)"
  by (simp add: destroy_def)

lemma destroy_times_destroyed: "destroyed tf \<Longrightarrow> destroy_times n tf w = (Inr (), tf, w)"
  by (induction n) (simp_all add: destroy_destroyed)

lemma destroy_present:
  "\<not> destroyed tf \<Longrightarrow> files w (filepath tf) \<noteq> None \<Longrightarrow>
   destroy tf w = (Inr (), tf\<lparr>destroyed := True\<rparr>,
     w\<lparr>files := (files w)(filepath tf := None), unlinks := unlinks w + 1\<rparr>)"
  by (auto simp: destroy_def os_unlink_def)

lemma destroy_absent:
  "\<not> destroyed tf \<Longrightarrow> files w (filepath tf) = None \<Longrightarrow>
   destroy tf w = (Inl (FileNotFoundError (filepath tf)), tf, w)"
  by (simp add: destroy_def os_unlink_def)

text \<open>
  Claim C6, as it fails: \<open>destroy\<close> on a temporary file that is not marked destroyed
  and whose file is no longer there raises the \<open>FileNotFoundError\<close> of
  \<open>os.unlink\<close>.
\<close>

theorem destroy_missing_file_counterexample:
  "destroy sample_tempfile sample_world
     = (Inl (FileNotFoundError (u ''/tmp/festival-AB12C.segs'')), sample_tempfile, sample_world)"
  by (simp add: destroy_def os_unlink_def sample_tempfile_def sample_world_def)

text \<open>
  Claim C6, amended. While the file is on disk, any number of calls of \<open>destroy\<close>,
  one at least, succeed and have the effect of one: the file is removed by a single
  \<open>os.unlink\<close> and the object marked destroyed; on an object marked destroyed
  \<open>destroy\<close> does nothing. When the file is already gone and the object is not
  marked destroyed, \<open>destroy\<close> raises \<open>FileNotFoundError\<close> and changes nothing.
\<close>

theorem destroy_idempotent_once_removed:
  "(\<not> destroyed tf \<and> files w (filepath tf) \<noteq> None \<longrightarrow>
      destroy_times (Suc n) tf w
        = (Inr (), tf\<lparr>destroyed := True\<rparr>,
           w\<lparr>files := (files w)(filepath tf := None), unlinks := unlinks w + 1\<rparr>))
   \<and> (destroyed tf \<longrightarrow> destroy_times n tf w = (Inr (), tf, w))
   \<and> (\<not> destroyed tf \<and> files w (filepath tf) = None \<longrightarrow>
      destroy_times (Suc n) tf w = (Inl (FileNotFoundError (filepath tf)), tf, w))"
  by (simp add: destroy_present destroy_absent destroy_times_destroyed)

theorem destroy_idempotent_once_removed_witness:
  "fst (destroy_times 3 sample_tempfile
          (sample_world\<lparr>files := [u ''/tmp/festival-AB12C.segs'' \<mapsto> []]\<rparr>)) = Inr ()
   \<and> unlinks (snd (snd (destroy_times 3 sample_tempfile
          (sample_world\<lparr>files := [u ''/tmp/festival-AB12C.segs'' \<mapsto> []]\<rparr>)))) = 1
   \<and> destroy_times 2 (sample_tempfile\<lparr>destroyed := True\<rparr>) sample_world
        = (Inr (), sample_tempfile\<lparr>destroyed := True\<rparr>, sample_world)
   \<and> fst (destroy_times 3 sample_tempfile sample_world)
        = Inl (FileNotFoundError (u ''/tmp/festival-AB12C.segs''))"
proof -
  let ?w = "sample_world\<lparr>files := [u ''/tmp/festival-AB12C.segs'' \<mapsto> []]\<rparr>"
  have p: "\<not> destroyed sample_tempfile \<and> files ?w (filepath sample_tempfile) \<noteq> None"
    by (simp add: sample_tempfile_def)
  have d: "destroyed (sample_tempfile\<lparr>destroyed := True\<rparr>)" by simp
  have a: "\<not> destroyed sample_tempfile \<and> files sample_world (filepath sample_tempfile) = None"
    by (simp add: sample_tempfile_def sample_world_def)
  from destroy_idempotent_once_removed [of sample_tempfile ?w 2] p
  have 1: "destroy_times 3 sample_tempfile ?w
        = (Inr (), sample_tempfile\<lparr>destroyed := True\<rparr>,
           ?w\<lparr>files := (files ?w)(filepath sample_tempfile := None),
              unlinks := unlinks ?w + 1\<rparr>)"
    by (simp add: numeral_3_eq_3)
  from destroy_idempotent_once_removed [of "sample_tempfile\<lparr>destroyed := True\<rparr>" sample_world 2] d
  have 2: "destroy_times 2 (sample_tempfile\<lparr>destroyed := True\<rparr>) sample_world
        = (Inr (), sample_tempfile\<lparr>destroyed := True\<rparr>, sample_world)"
    by simp
  from destroy_idempotent_once_removed [of sample_tempfile sample_world 2] a
  have 3: "destroy_times 3 sample_tempfile sample_world
        = (Inl (FileNotFoundError (filepath sample_tempfile)), sample_tempfile, sample_world)"
    by (simp add: numeral_3_eq_3)
  show ?thesis
    unfolding 1 2 3 by (simp add: sample_tempfile_def sample_world_def)
qed

subsection \<open>Polling the engine\<close>

lemma has_exited_never: "exits_after run = None \<Longrightarrow> \<not> has_exited run i"
  by (simp add: has_exited_def)

lemma poll_loop_stuck:
  assumes "exits_after run = None"
  shows "i \<le> n \<Longrightarrow>
    poll_loop run timeout (int n) command path [i..<Suc n] w
      = (Inl (Exception (timed_out_message timeout command)),
         w\<lparr>polls := polls w + (Suc n - i), sleeps := sleeps w + (n - i),
           kills := kills w + 1,
           stdout := stdout w
             @ [u ''Festivl timed out after '' @ str_int (int n div 10) @ u ''s'']\<rparr>)"
proof (induction "n - i" arbitrary: i w)
  case 0
  then have "i = n" by simp
  then have "[i..<Suc n] = [n]" by simp
  then show ?case
    using assms \<open>i = n\<close> by (simp add: has_exited_never Let_def del: upt_Suc)
next
  case (Suc d)
  then have lt: "i < n" by simp
  then have l: "[i..<Suc n] = i # [Suc i..<Suc n]" by (simp add: upt_conv_Cons)
  have d: "d = n - Suc i" using Suc.hyps by simp
  have le: "Suc i \<le> n" using lt by simp
  note ih = Suc.hyps(1) [OF d le]
  have "poll_loop run timeout (int n) command path (i # [Suc i..<Suc n]) w
      = poll_loop run timeout (int n) command path [Suc i..<Suc n]
          (w\<lparr>polls := polls w + 1, sleeps := sleeps w + 1\<rparr>)"
    using assms lt by (simp add: has_exited_never Let_def del: upt_Suc)
  also have "\<dots> = (Inl (Exception (timed_out_message timeout command)),
         w\<lparr>polls := polls w + 1 + (Suc n - Suc i), sleeps := sleeps w + 1 + (n - Suc i),
           kills := kills w + 1,
           stdout := stdout w
             @ [u ''Festivl timed out after '' @ str_int (int n div 10) @ u ''s'']\<rparr>)"
    by (subst ih) simp
  also have "polls w + 1 + (Suc n - Suc i) = polls w + (Suc n - i)"
    using lt by simp
  also have "sleeps w + 1 + (n - Suc i) = sleeps w + (n - i)"
    using lt by simp
  finally show ?case unfolding l .
qed

lemma TempFile_loop_Some:
  "TempFile_loop env pre suf rs w = Some (tf, w1) \<Longrightarrow>
   \<not> destroyed tf \<and> files w1 (filepath tf) = Some []
   \<and> polls w1 = polls w \<and> sleeps w1 = sleeps w \<and> kills w1 = kills w
   \<and> unlinks w1 = unlinks w \<and> stdout w1 = stdout w"
  by (induction rs) (auto simp: Let_def split: if_splits)

lemma TempFile_init_Some:
  "TempFile_init env pre suf w = Some (tf, w1) \<Longrightarrow>
   \<not> destroyed tf \<and> files w1 (filepath tf) = Some []
   \<and> polls w1 = polls w \<and> sleeps w1 = sleeps w \<and> kills w1 = kills w
   \<and> unlinks w1 = unlinks w \<and> stdout w1 = stdout w"
  unfolding TempFile_init_def by (rule TempFile_loop_Some)

lemma with_tempf_stuck:
  assumes "festival_found env" and "\<And>c. exits_after (festival env c) = None"
    and "0 \<le> timeout"
  shows "with_tempf env text timeout tempf w
    = (Inl (Exception (timed_out_message timeout
              (command_format (festival_escape text) (festival_escape (filepath tempf))))),
       w\<lparr>polls := polls w + Suc (nat (10 * timeout)),
         sleeps := sleeps w + nat (10 * timeout),
         kills := kills w + 1,
         stdout := stdout w
           @ [u ''Festivl timed out after '' @ str_int (10 * timeout div 10) @ u ''s'']\<rparr>)"
proof -
  define n where "n = nat (10 * timeout)"
  have n: "10 * timeout = int n" using assms(3) by (simp add: n_def)
  have r: "[0..<nat (int n + 1)] = [0..<Suc n]"
    by (simp add: nat_add_distrib del: upt_Suc)
  let ?c = "command_format (festival_escape text) (festival_escape (filepath tempf))"
  have "poll_loop (festival env ?c) timeout (int n) ?c (filepath tempf) [0..<Suc n] w
      = (Inl (Exception (timed_out_message timeout ?c)),
         w\<lparr>polls := polls w + (Suc n - 0), sleeps := sleeps w + (n - 0),
           kills := kills w + 1,
           stdout := stdout w
             @ [u ''Festivl timed out after '' @ str_int (int n div 10) @ u ''s'']\<rparr>)"
    by (rule poll_loop_stuck) (simp_all add: assms(2))
  then show ?thesis
    using assms(1)
    by (simp add: with_tempf_def Let_def timeout_loops_of_def get_path_def n r del: upt_Suc)
qed

text \<open>
  Claim C7. When the Festival process never exits and the timeout is not negative,
  \<open>transcribe_string\<close> polls it ten times the timeout plus one times, sleeping 0.1
  seconds between two polls, then kills it once and raises an exception whose message
  holds the timeout and the command; it returns no transcription, the time slept is
  the timeout at most, and the temporary file is gone.
\<close>

theorem transcribe_string_times_out:
  assumes "0 \<le> timeout"
    and "TempFile_init env (u ''festival-'') (u ''.segs'') w = Some (tempf, w1)"
    and "festival_found env"
    and "\<And>command. exits_after (festival env command) = None"
    and "map_utf8_to_festival (normalize_nfkd env) string = Inr text"
  shows "\<exists>w'. transcribe_string env string timeout w
        = Some (Inl (Exception
            (u ''Festival subprocess timed out (Timeout: '' @ str_int timeout
             @ u ''s, Command: ''
             @ command_format (festival_escape text) (festival_escape (filepath tempf))
             @ u '').'')), w')
      \<and> polls w' = polls w + nat (10 * timeout) + 1
      \<and> sleeps w' = sleeps w + nat (10 * timeout)
      \<and> kills w' = kills w + 1
      \<and> files w' (filepath tempf) = None
      \<and> rat_of_nat (sleeps w' - sleeps w) * (1 / 10) \<le> rat_of_int timeout + 1 / 10"
proof -
  from TempFile_init_Some [OF assms(2)]
  have tf: "\<not> destroyed tempf" "files w1 (filepath tempf) = Some []"
    and same: "polls w1 = polls w" "sleeps w1 = sleeps w" "kills w1 = kills w"
    by simp_all
  let ?c = "command_format (festival_escape text) (festival_escape (filepath tempf))"
  let ?w2 = "w1\<lparr>polls := polls w1 + Suc (nat (10 * timeout)),
         sleeps := sleeps w1 + nat (10 * timeout),
         kills := kills w1 + 1,
         stdout := stdout w1
           @ [u ''Festivl timed out after '' @ str_int (10 * timeout div 10) @ u ''s'']\<rparr>"
  let ?w3 = "?w2\<lparr>files := (files ?w2)(filepath tempf := None), unlinks := unlinks ?w2 + 1\<rparr>"
  have body: "with_tempf env text timeout tempf w1
      = (Inl (Exception (timed_out_message timeout ?c)), ?w2)"
    using assms(3,4,1) by (rule with_tempf_stuck)
  have "files ?w2 (filepath tempf) \<noteq> None" using tf(2) by simp
  with tf(1) have rel: "destroy tempf ?w2 = (Inr (), tempf\<lparr>destroyed := True\<rparr>, ?w3)"
    by (rule destroy_present)
  have res: "transcribe_string env string timeout w
      = Some (Inl (Exception (timed_out_message timeout ?c)), ?w3)"
    by (simp only: transcribe_string_def assms(5) assms(2) body rel
        sum.case option.case prod.case)
  have time: "rat_of_nat (sleeps ?w3 - sleeps w) * (1 / 10) \<le> rat_of_int timeout + 1 / 10"
    using assms(1) same by simp
  show ?thesis
    unfolding res timed_out_message_def
    using same time by (intro exI [of _ ?w3]) simp
qed

theorem transcribe_string_times_out_witness:
  "\<exists>w'. transcribe_string (sample_env stuck_run) (u ''caffi'') 5 sample_world
        = Some (Inl (Exception
            (u ''Festival subprocess timed out (Timeout: '' @ str_int 5
             @ u ''s, Command: ''
             @ command_format (festival_escape (u ''caffi''))
                 (festival_escape (filepath sample_tempfile))
             @ u '').'')), w')
      \<and> polls w' = polls sample_world + nat (10 * 5) + 1
      \<and> sleeps w' = sleeps sample_world + nat (10 * 5)
      \<and> kills w' = kills sample_world + 1
      \<and> files w' (filepath sample_tempfile) = None
      \<and> rat_of_nat (sleeps w' - sleeps sample_world) * (1 / 10) \<le> rat_of_int 5 + 1 / 10"
proof (rule transcribe_string_times_out)
  show "(0::int) \<le> 5" by simp
  show "TempFile_init (sample_env stuck_run) (u ''festival-'') (u ''.segs'') sample_world
      = Some (sample_tempfile,
          sample_world\<lparr>files := [u ''/tmp/festival-AB12C.segs'' \<mapsto> []],
            random_strings := [u ''ZZ9Y8'']\<rparr>)"
    by (simp add: TempFile_init_def sample_env_def sample_world_def sample_tempfile_def
        Let_def u_def)
  show "festival_found (sample_env stuck_run)" by (simp add: sample_env_def)
  show "exits_after (festival (sample_env stuck_run) command) = None" for command
    by (simp add: sample_env_def stuck_run_def)
  show "map_utf8_to_festival (normalize_nfkd (sample_env stuck_run)) (u ''caffi'')
      = Inr (u ''caffi'')"
    by (simp add: sample_env_def map_utf8_to_festival_eq nfkd_sample_def decomposition_def
        marker_def u_def)
qed

subsection \<open>Transcribing a line\<close>

lemma split_on_acc_no_sep: "sep \<notin> set ys \<Longrightarrow> split_on_acc sep cur ys = [cur @ ys]"
  by (induction ys arbitrary: cur) simp_all

lemma split_on_acc_first:
  "sep \<notin> set xs \<Longrightarrow>
   split_on_acc sep cur (xs @ sep # ys) = (cur @ xs) # split_on_acc sep [] ys"
  by (induction xs arbitrary: cur) simp_all

lemma str_split_on_two:
  "sep \<notin> set xs \<Longrightarrow> sep \<notin> set ys \<Longrightarrow> str_split_on sep (xs @ sep # ys) = [xs, ys]"
  by (simp add: str_split_on_def split_on_acc_first split_on_acc_no_sep)

lemma str_strip_trailing:
  assumes "s \<noteq> []" and "\<not> isspace (hd s)" and "\<not> isspace (last s)"
    and "\<forall>c\<in>set eol. isspace c"
  shows "str_strip (s @ eol) = s"
proof -
  have front: "dropWhile isspace (s @ eol) = s @ eol"
    using assms(1,2) by (cases s) simp_all
  have "dropWhile isspace (rev eol @ rev s) = dropWhile isspace (rev s)"
    using assms(4) by (intro dropWhile_append2) simp
  also have "\<dots> = rev s"
    using assms(1,3) by (cases "rev s") (simp_all add: last_rev [symmetric] hd_rev)
  finally show ?thesis by (simp add: str_strip_def front)
qed

lemma strip_record:
  assumes "word = [] \<or> \<not> isspace (hd word)" and "count = [] \<or> \<not> isspace (last count)"
    and "\<forall>c\<in>set eol. isspace c"
  shows "str_strip (word @ 44 # count @ eol) = word @ 44 # count"
proof -
  have c: "\<not> isspace 44" by (simp add: isspace_def)
  have "str_strip ((word @ 44 # count) @ eol) = word @ 44 # count"
  proof (rule str_strip_trailing)
    show "word @ 44 # count \<noteq> []" by simp
    show "\<not> isspace (hd (word @ 44 # count))"
      using assms(1) c by (cases word) auto
    show "\<not> isspace (last (word @ 44 # count))"
      using assms(2) c by (cases count rule: rev_cases) auto
    show "\<forall>c\<in>set eol. isspace c" by (rule assms(3))
  qed
  then show ?thesis by simp
qed

lemma transcribe_line_record:
  assumes "44 \<notin> set word" and "44 \<notin> set count"
    and "word = [] \<or> \<not> isspace (hd word)" and "count = [] \<or> \<not> isspace (last count)"
    and "\<forall>c\<in>set eol. isspace c"
  shows "transcribe_line env (word @ [44] @ count @ eol) timeout w
    = (case transcribe_string env word timeout w of
         None \<Rightarrow> None
       | Some (Inl e, w') \<Rightarrow> Some (Inl e, w')
       | Some (Inr transcription, w') \<Rightarrow>
           Some (Inr (transcription @ u '','' @ count @ u '','' @ word @ [13, 10]), w'))"
  using assms(1,2)
  by (simp add: transcribe_line_def strip_record [OF assms(3,4,5)] str_split_on_two)

lemma has_exited_at: "exits_after run = Some k \<Longrightarrow> has_exited run i = (k \<le> i)"
  by (simp add: has_exited_def)

lemma poll_loop_exit:
  assumes "exits_after run = Some k" and "k \<le> n"
  shows "i \<le> k \<Longrightarrow>
    poll_loop run timeout (int n) command path [i..<Suc n] w
      = (Inr (), w\<lparr>polls := polls w + (Suc k - i), sleeps := sleeps w + (k - i),
                  files := (files w)(path \<mapsto> segs run)\<rparr>)"
proof (induction "k - i" arbitrary: i w)
  case 0
  then have "i = k" by simp
  then have "[i..<Suc n] = k # [Suc k..<Suc n]"
    using assms(2) by (simp add: upt_conv_Cons del: upt_Suc)
  then show ?case
    using assms(1) \<open>i = k\<close>
    by (cases w) (auto simp: has_exited_at Let_def fun_upd_def simp del: upt_Suc)
next
  case (Suc d)
  then have lt: "i < k" by simp
  then have l: "[i..<Suc n] = i # [Suc i..<Suc n]"
    using assms(2) by (simp add: upt_conv_Cons del: upt_Suc)
  have d: "d = k - Suc i" using Suc.hyps by simp
  have le: "Suc i \<le> k" using lt by simp
  note ih = Suc.hyps(1) [OF d le]
  have "poll_loop run timeout (int n) command path (i # [Suc i..<Suc n]) w
      = poll_loop run timeout (int n) command path [Suc i..<Suc n]
          (w\<lparr>polls := polls w + 1, sleeps := sleeps w + 1\<rparr>)"
    using assms lt by (simp add: has_exited_at Let_def del: upt_Suc)
  also have "\<dots> = (Inr (), w\<lparr>polls := polls w + 1 + (Suc k - Suc i),
                  sleeps := sleeps w + 1 + (k - Suc i),
                  files := (files w)(path \<mapsto> segs run)\<rparr>)"
    by (subst ih) simp
  also have "polls w + 1 + (Suc k - Suc i) = polls w + (Suc k - i)"
    using lt by simp
  also have "sleeps w + 1 + (k - Suc i) = sleeps w + (k - i)"
    using lt by simp
  finally show ?case unfolding l .
qed

lemma with_tempf_exit:
  assumes "festival_found env"
    and "exits_after (festival env
           (command_format (festival_escape text) (festival_escape (filepath tempf)))) = Some k"
    and "int k \<le> 10 * timeout"
  shows "with_tempf env text timeout tempf w
    = (Inr (segs (festival env
           (command_format (festival_escape text) (festival_escape (filepath tempf))))),
       w\<lparr>polls := polls w + Suc k, sleeps := sleeps w + k,
         files := (files w)(filepath tempf \<mapsto> segs (festival env
           (command_format (festival_escape text) (festival_escape (filepath tempf)))))\<rparr>)"
proof -
  define n where "n = nat (10 * timeout)"
  have n: "10 * timeout = int n" using assms(3) by (simp add: n_def)
  have kn: "k \<le> n" using assms(3) by (simp add: n_def)
  have r: "[0..<nat (int n + 1)] = [0..<Suc n]"
    by (simp add: nat_add_distrib del: upt_Suc)
  let ?c = "command_format (festival_escape text) (festival_escape (filepath tempf))"
  have "poll_loop (festival env ?c) timeout (int n) ?c (filepath tempf) [0..<Suc n] w
      = (Inr (), w\<lparr>polls := polls w + (Suc k - 0), sleeps := sleeps w + (k - 0),
                  files := (files w)(filepath tempf \<mapsto> segs (festival env ?c))\<rparr>)"
    using assms(2) kn by (rule poll_loop_exit) simp
  then show ?thesis
    using assms(1)
    by (simp add: with_tempf_def Let_def timeout_loops_of_def get_path_def n r del: upt_Suc)
qed

lemma last_fields_all:
  "\<forall>l\<in>set ls. str_split l \<noteq> [] \<Longrightarrow>
   last_fields t ls
     = Inr (t @ concat (map (\<lambda>f. f @ u '' '') (map (\<lambda>l. last (str_split l)) ls)))"
  by (induction ls arbitrary: t) (auto split: list.splits)

lemma kafi: "map_festival_to_ipa (u ''k a f i '') False False True = Inr (u ''kafi'')"
  by (simp add: map_festival_to_ipa_def str_split_def str_strip_def isspace_def u_def
      ipa_table_def festival_to_ipa_mapping_def festival_to_ipa_fixes_def
      festival_labialisation_augmentation_def map_add_def)

lemma transcribe_string_caffi:
  assumes nf: "normalize_nfkd env (u ''caffi'') = u ''caffi''"
    and init: "TempFile_init env (u ''festival-'') (u ''.segs'') w = Some (tempf, w1)"
    and found: "festival_found env"
    and ex: "exits_after (festival env
               (command_format (u ''caffi'') (festival_escape (filepath tempf)))) = Some k"
    and k: "k \<le> 300"
    and fields: "\<forall>l\<in>set (segs (festival env
               (command_format (u ''caffi'') (festival_escape (filepath tempf))))).
             str_split l \<noteq> []"
    and kafi_segs: "map (\<lambda>l. last (str_split l)) (segs (festival env
               (command_format (u ''caffi'') (festival_escape (filepath tempf)))))
             = [u ''k'', u ''a'', u ''f'', u ''i'']"
  shows "\<exists>w'. transcribe_string env (u ''caffi'') 30 w = Some (Inr (u ''kafi''), w')"
proof -
  let ?c = "command_format (u ''caffi'') (festival_escape (filepath tempf))"
  let ?segs = "segs (festival env ?c)"
  have norm: "map_utf8_to_festival (normalize_nfkd env) (u ''caffi'') = Inr (u ''caffi'')"
    unfolding map_utf8_to_festival_eq nf by (simp add: marker_def u_def)
  have esc: "festival_escape (u ''caffi'') = u ''caffi''"
    by (simp add: festival_escape_concat escape_char_def u_def)
  from TempFile_init_Some [OF init] have tf: "\<not> destroyed tempf" by simp
  let ?w2 = "w1\<lparr>polls := polls w1 + Suc k, sleeps := sleeps w1 + k,
         files := (files w1)(filepath tempf \<mapsto> ?segs)\<rparr>"
  let ?w3 = "?w2\<lparr>files := (files ?w2)(filepath tempf := None), unlinks := unlinks ?w2 + 1\<rparr>"
  have "with_tempf env (u ''caffi'') 30 tempf w1
      = (Inr (segs (festival env
           (command_format (festival_escape (u ''caffi'')) (festival_escape (filepath tempf))))),
       w1\<lparr>polls := polls w1 + Suc k, sleeps := sleeps w1 + k,
         files := (files w1)(filepath tempf \<mapsto> segs (festival env
           (command_format (festival_escape (u ''caffi''))
              (festival_escape (filepath tempf)))))\<rparr>)"
    using found ex k by (intro with_tempf_exit) (simp_all add: esc)
  then have body: "with_tempf env (u ''caffi'') 30 tempf w1 = (Inr ?segs, ?w2)"
    unfolding esc .
  have "files ?w2 (filepath tempf) \<noteq> None" by simp
  with tf have rel: "destroy tempf ?w2 = (Inr (), tempf\<lparr>destroyed := True\<rparr>, ?w3)"
    by (rule destroy_present)
  have "last_fields [] ?segs
      = Inr ([] @ concat (map (\<lambda>f. f @ u '' '') (map (\<lambda>l. last (str_split l)) ?segs)))"
    using fields by (rule last_fields_all)
  then have lf: "last_fields [] ?segs = Inr (u ''k a f i '')"
    unfolding kafi_segs by (simp add: u_def)
  have "transcribe_string env (u ''caffi'') 30 w = Some (Inr (u ''kafi''), ?w3)"
    by (simp only: transcribe_string_def norm init body rel lf kafi
        sum.case option.case prod.case)
  then show ?thesis by blast
qed

text \<open>
  Claim C8. For a line made of a word, a comma, a frequency and a terminator of white
  space (neither field holds a comma, the word does not begin and the frequency does
  not end with white space), \<open>transcribe_line\<close> returns what \<open>transcribe_string\<close>
  returns for the word, followed by a comma, the frequency as it stands, a comma, the
  word, and CR LF; it raises what \<open>transcribe_string\<close> raises. For the line
  \<open>caffi,12\<close>, the timeout 30 and a Festival that exits in time with the segments
  \<open>k\<close>, \<open>a\<close>, \<open>f\<close>, \<open>i\<close> in the last fields of its lines, the result is
  \<open>kafi,12,caffi\<close> with CR LF.
\<close>

theorem transcribe_line_output:
  assumes "44 \<notin> set word" and "44 \<notin> set count"
    and "word = [] \<or> \<not> isspace (hd word)" and "count = [] \<or> \<not> isspace (last count)"
    and "\<forall>c\<in>set eol. isspace c"
  shows "transcribe_line env (word @ [44] @ count @ eol) timeout w
      = (case transcribe_string env word timeout w of
           None \<Rightarrow> None
         | Some (Inl e, w') \<Rightarrow> Some (Inl e, w')
         | Some (Inr transcription, w') \<Rightarrow>
             Some (Inr (transcription @ u '','' @ count @ u '','' @ word @ [13, 10]), w'))
    \<and> (normalize_nfkd env (u ''caffi'') = u ''caffi''
       \<and> TempFile_init env (u ''festival-'') (u ''.segs'') w = Some (tempf, w1)
       \<and> festival_found env
       \<and> exits_after (festival env
            (command_format (u ''caffi'') (festival_escape (filepath tempf)))) = Some k
       \<and> k \<le> 300
       \<and> (\<forall>l\<in>set (segs (festival env
            (command_format (u ''caffi'') (festival_escape (filepath tempf))))).
             str_split l \<noteq> [])
       \<and> map (\<lambda>l. last (str_split l)) (segs (festival env
            (command_format (u ''caffi'') (festival_escape (filepath tempf)))))
           = [u ''k'', u ''a'', u ''f'', u ''i'']
       \<longrightarrow> (\<exists>w'. transcribe_line env (u ''caffi,12'' @ eol) 30 w
              = Some (Inr (u ''kafi,12,caffi'' @ [13, 10]), w')))"
proof (intro conjI impI)
  show "transcribe_line env (word @ [44] @ count @ eol) timeout w
      = (case transcribe_string env word timeout w of
           None \<Rightarrow> None
         | Some (Inl e, w') \<Rightarrow> Some (Inl e, w')
         | Some (Inr transcription, w') \<Rightarrow>
             Some (Inr (transcription @ u '','' @ count @ u '','' @ word @ [13, 10]), w'))"
    using assms by (rule transcribe_line_record)
next
  assume h: "normalize_nfkd env (u ''caffi'') = u ''caffi''
       \<and> TempFile_init env (u ''festival-'') (u ''.segs'') w = Some (tempf, w1)
       \<and> festival_found env
       \<and> exits_after (festival env
            (command_format (u ''caffi'') (festival_escape (filepath tempf)))) = Some k
       \<and> k \<le> 300
       \<and> (\<forall>l\<in>set (segs (festival env
            (command_format (u ''caffi'') (festival_escape (filepath tempf))))).
             str_split l \<noteq> [])
       \<and> map (\<lambda>l. last (str_split l)) (segs (festival env
            (command_format (u ''caffi'') (festival_escape (filepath tempf)))))
           = [u ''k'', u ''a'', u ''f'', u ''i'']"
  then have "\<exists>w'. transcribe_string env (u ''caffi'') 30 w = Some (Inr (u ''kafi''), w')"
    by (elim conjE) (rule transcribe_string_caffi [of env w tempf w1 k]; assumption)
  then obtain w' where ts: "transcribe_string env (u ''caffi'') 30 w = Some (Inr (u ''kafi''), w')"
    by blast
  have "transcribe_line env (u ''caffi'' @ [44] @ u ''12'' @ eol) 30 w
      = (case transcribe_string env (u ''caffi'') 30 w of
           None \<Rightarrow> None
         | Some (Inl e, w') \<Rightarrow> Some (Inl e, w')
         | Some (Inr transcription, w') \<Rightarrow>
             Some (Inr (transcription @ u '','' @ u ''12'' @ u '','' @ u ''caffi'' @ [13, 10]),
                   w'))"
    using assms(5) by (intro transcribe_line_record) (simp_all add: u_def isspace_def)
  then have "transcribe_line env (u ''caffi,12'' @ eol) 30 w
      = Some (Inr (u ''kafi,12,caffi'' @ [13, 10]), w')"
    unfolding ts by (simp add: u_def)
  then show "\<exists>w'. transcribe_line env (u ''caffi,12'' @ eol) 30 w
              = Some (Inr (u ''kafi,12,caffi'' @ [13, 10]), w')" by blast
qed

theorem transcribe_line_output_witness:
  "\<exists>w'. transcribe_line (sample_env caffi_run) (u ''caffi,12'' @ [10]) 30 sample_world
       = Some (Inr (u ''kafi,12,caffi'' @ [13, 10]), w')"
proof -
  let ?env = "sample_env caffi_run"
  let ?w1 = "sample_world\<lparr>files := [u ''/tmp/festival-AB12C.segs'' \<mapsto> []],
            random_strings := [u ''ZZ9Y8'']\<rparr>"
  have wf: "44 \<notin> set (u ''caffi'')" "44 \<notin> set (u ''12'')"
    "u ''caffi'' = [] \<or> \<not> isspace (hd (u ''caffi''))"
    "u ''12'' = [] \<or> \<not> isspace (last (u ''12''))"
    "\<forall>c\<in>set [10]. isspace c"
    by (simp_all add: u_def isspace_def)
  have run: "festival ?env c = caffi_run" for c by (simp add: sample_env_def)
  have h: "normalize_nfkd ?env (u ''caffi'') = u ''caffi''
       \<and> TempFile_init ?env (u ''festival-'') (u ''.segs'') sample_world
           = Some (sample_tempfile, ?w1)
       \<and> festival_found ?env
       \<and> exits_after (festival ?env
            (command_format (u ''caffi'') (festival_escape (filepath sample_tempfile)))) = Some 3
       \<and> (3::nat) \<le> 300
       \<and> (\<forall>l\<in>set (segs (festival ?env
            (command_format (u ''caffi'') (festival_escape (filepath sample_tempfile))))).
             str_split l \<noteq> [])
       \<and> map (\<lambda>l. last (str_split l)) (segs (festival ?env
            (command_format (u ''caffi'') (festival_escape (filepath sample_tempfile)))))
           = [u ''k'', u ''a'', u ''f'', u ''i'']"
    unfolding run
    by (simp add: sample_env_def caffi_run_def TempFile_init_def sample_world_def
        sample_tempfile_def nfkd_sample_def decomposition_def Let_def u_def
        str_split_def isspace_def)
  from transcribe_line_output [OF wf, of ?env 30 sample_world sample_tempfile ?w1 3] h
  show ?thesis by blast
qed

end
